theory Spec2Isabelle
  imports Main "HOL-Library.AList" "HOL-Library.Sublist"
begin

section \<open>Text\<close>

text \<open>
  Text of script.js is modelled by Isabelle strings: a \<^typ>\<open>char\<close> is one code unit of the
  Latin-1 range (U+0000 to U+00FF). On that range \<^verbatim>\<open>trim\<close> and the regular expression
  class \<^verbatim>\<open>\s\<close> remove the same seven characters (tab, line feed, vertical tab, form feed,
  carriage return, space, no-break space), and \<^verbatim>\<open>toLowerCase\<close> maps a code unit to a code
  unit: A-Z and the accented capitals U+00C0 to U+00DE (the multiplication sign U+00D7 apart)
  move up by 32.
\<close>

definition isWhiteSpace :: "char \<Rightarrow> bool" where
  "isWhiteSpace c = (of_char c \<in> {9, 10, 11, 12, 13, 32, 160 :: nat})"

definition trim :: "string \<Rightarrow> string" where
  "trim s = rev (dropWhile isWhiteSpace (rev (dropWhile isWhiteSpace s)))"

definition toLowerCase_char :: "char \<Rightarrow> char" where
  "toLowerCase_char c =
     (let n = (of_char c :: nat) in
      if (65 \<le> n \<and> n \<le> 90) \<or> (192 \<le> n \<and> n \<le> 222 \<and> n \<noteq> 215)
      then char_of (n + 32) else c)"

definition toLowerCase :: "string \<Rightarrow> string" where
  "toLowerCase s = map toLowerCase_char s"

text \<open>\<^verbatim>\<open>s.split(sep)\<close> for a separator of one character: never empty, the empty text gives one
  empty piece.\<close>

fun split_on :: "char \<Rightarrow> string \<Rightarrow> string list" where
  "split_on sep [] = [[]]"
| "split_on sep (c # cs) =
     (if c = sep then [] # split_on sep cs
      else (case split_on sep cs of [] \<Rightarrow> [[c]] | w # ws \<Rightarrow> (c # w) # ws))"

text \<open>\<^verbatim>\<open>s.includes(q)\<close>: \<open>q\<close> starts at some position of \<open>s\<close>.\<close>

fun includes_str :: "string \<Rightarrow> string \<Rightarrow> bool" where
  "includes_str [] q = (q = [])"
| "includes_str (c # cs) q = (prefix q (c # cs) \<or> includes_str cs q)"

definition newline :: char where
  "newline = CHR 0x0A"

definition comma :: char where
  "comma = CHR '',''"

section \<open>parseCSV\<close>

subsection \<open>Cleaning a cell\<close>

text \<open>The arrow function of lines 33-35, 56-58 and 71-73:
  \<^verbatim>\<open>h.trim().toLowerCase().replace(/\s+/g, '').replace(/[^a-z0-9]/g, '')\<close>.
  Deleting every run of white space deletes every white space character.\<close>

definition is_a_z0_9 :: "char \<Rightarrow> bool" where
  "is_a_z0_9 c =
     (let n = (of_char c :: nat) in (97 \<le> n \<and> n \<le> 122) \<or> (48 \<le> n \<and> n \<le> 57))"

definition cleanCell :: "string \<Rightarrow> string" where
  "cleanCell h = filter is_a_z0_9 (filter (\<lambda>c. \<not> isWhiteSpace c) (toLowerCase (trim h)))"

subsection \<open>The rename table\<close>

text \<open>
  \<^verbatim>\<open>headerMap\<close> is an object literal, so \<^verbatim>\<open>headerMap[h]\<close> finds the twelve own properties
  and, for any other name, what the object inherits from \<^verbatim>\<open>Object.prototype\<close>. An inherited
  member is a function or an object, never a string; \<open>Inherited m\<close> stands for the member
  named \<open>m\<close>.
\<close>

datatype jsval = Str string | Inherited string

definition headerMap :: "(string \<times> string) list" where
  "headerMap =
     [(''name'', ''name''),
      (''age'', ''age''),
      (''gender'', ''gender''),
      (''dateofbirth'', ''dateofbirth''),
      (''contact'', ''contact''),
      (''systolicbp'', ''systolic''),
      (''diastolicbp'', ''diastolic''),
      (''spo2'', ''spo2''),
      (''heartrate'', ''heartrate''),
      (''temperature'', ''temperature''),
      (''results'', ''results''),
      (''doctor'', ''doctor'')]"

definition object_prototype_names :: "string list" where
  "object_prototype_names =
     [''constructor'', ''hasOwnProperty'', ''isPrototypeOf'', ''propertyIsEnumerable'',
      ''toLocaleString'', ''toString'', ''valueOf'', ''__proto__'',
      ''__defineGetter__'', ''__defineSetter__'', ''__lookupGetter__'', ''__lookupSetter__'']"

text \<open>\<^verbatim>\<open>headerMap[h]\<close>; \<open>None\<close> is \<^verbatim>\<open>undefined\<close>.\<close>

definition headerMap_get :: "string \<Rightarrow> jsval option" where
  "headerMap_get h =
     (case map_of headerMap h of
        Some v \<Rightarrow> Some (Str v)
      | None \<Rightarrow> if h \<in> set object_prototype_names then Some (Inherited h) else None)"

definition truthy :: "jsval \<Rightarrow> bool" where
  "truthy v = (case v of Str s \<Rightarrow> s \<noteq> [] | Inherited m \<Rightarrow> True)"

text \<open>\<^verbatim>\<open>h => headerMap[h] || h\<close>\<close>

definition normalizedHeader :: "string \<Rightarrow> jsval" where
  "normalizedHeader h =
     (case headerMap_get h of
        Some v \<Rightarrow> if truthy v then v else Str h
      | None \<Rightarrow> Str h)"

subsection \<open>The 70 percent test\<close>

text \<open>
  \<^verbatim>\<open>values.length < normalizedHeaders.length * 0.7\<close> is a comparison of binary64 numbers.
  The literal 0.7 is the double 3152519739159347 / 2^52. The product of a length \<open>n\<close> and
  that double is the exact product \<open>n * 3152519739159347 / 2^52\<close> rounded to 53 significant
  bits, ties to even; \<open>round53\<close> rounds the numerator. A length is below 2^32, so the product
  is a normal number and a length is a double itself.
\<close>

function bit_length :: "int \<Rightarrow> nat" where
  "bit_length n = (if n \<le> 0 then 0 else Suc (bit_length (n div 2)))"
  by pat_completeness auto
termination
  by (relation "measure nat") auto

declare bit_length.simps [simp del]

definition round53 :: "int \<Rightarrow> int" where
  "round53 N =
     (let s = bit_length N - 53; q = N div 2 ^ s; r = N mod 2 ^ s in
      if 2 ^ s < 2 * r \<or> (2 * r = 2 ^ s \<and> odd q) then (q + 1) * 2 ^ s else q * 2 ^ s)"

definition lt_times_0_7 :: "nat \<Rightarrow> nat \<Rightarrow> bool" where
  "lt_times_0_7 v n = (int v * 2 ^ 52 < round53 (int n * 3152519739159347))"

subsection \<open>Records\<close>

text \<open>
  A record is a plain object: its own properties in the order \<^verbatim>\<open>Object.values\<close> visits
  them, which is array indices first, ascending, then the other names as they were created.
  The key of a property is the string form of the header it was stored under: \<open>Str s\<close> is
  the name \<open>s\<close>; \<open>Inherited m\<close> is the source text of the inherited member, which no cleaned
  header equals (it has spaces and brackets).
\<close>

type_synonym js_object = "(jsval \<times> string) list"

definition isDigit :: "char \<Rightarrow> bool" where
  "isDigit c = (48 \<le> (of_char c :: nat) \<and> (of_char c :: nat) \<le> 57)"

definition decimalValue :: "string \<Rightarrow> int" where
  "decimalValue s = foldl (\<lambda>a c. 10 * a + (of_char c - 48)) 0 s"

text \<open>An array index is the canonical decimal form of a number up to 2^32 - 2.\<close>

definition isArrayIndex :: "string \<Rightarrow> bool" where
  "isArrayIndex s =
     (s \<noteq> [] \<and> list_all isDigit s \<and> (hd s \<noteq> CHR ''0'' \<or> s = ''0'')
      \<and> decimalValue s < 2 ^ 32 - 1)"

fun key_index :: "jsval \<Rightarrow> int option" where
  "key_index (Str s) = (if isArrayIndex s then Some (decimalValue s) else None)"
| "key_index (Inherited m) = None"

fun insert_index :: "int \<Rightarrow> jsval \<Rightarrow> string \<Rightarrow> js_object \<Rightarrow> js_object" where
  "insert_index i k v [] = [(k, v)]"
| "insert_index i k v (p # ps) =
     (case key_index (fst p) of
        Some j \<Rightarrow> if j < i then p # insert_index i k v ps else (k, v) # p # ps
      | None \<Rightarrow> (k, v) # p # ps)"

text \<open>\<^verbatim>\<open>obj[key] = value\<close>. A property that exists keeps its place. Assigning to
  \<^verbatim>\<open>__proto__\<close> calls the inherited setter, which ignores a string.\<close>

definition obj_set :: "jsval \<Rightarrow> string \<Rightarrow> js_object \<Rightarrow> js_object" where
  "obj_set k v obj =
     (if k = Str ''__proto__'' then obj
      else if k \<in> set (map fst obj) then AList.update k v obj
      else (case key_index k of
              Some i \<Rightarrow> insert_index i k v obj
            | None \<Rightarrow> obj @ [(k, v)]))"

subsection \<open>The loop\<close>

text \<open>The \<^verbatim>\<open>forEach\<close> of lines 83-87, on the pair \<open>(obj, isRowEmpty)\<close>.
  \<^verbatim>\<open>values[index] ? values[index].trim() : ''\<close>: \<^verbatim>\<open>values[index]\<close> is falsy when the index
  is out of range or the cell is empty.\<close>

definition fieldValue :: "string list \<Rightarrow> nat \<Rightarrow> string" where
  "fieldValue values index =
     (if index < length values \<and> values ! index \<noteq> [] then trim (values ! index) else [])"

fun forEach_header :: "jsval list \<Rightarrow> nat \<Rightarrow> string list \<Rightarrow> js_object \<times> bool \<Rightarrow> js_object \<times> bool" where
  "forEach_header [] index values st = st"
| "forEach_header (header # rest) index values (obj, isRowEmpty) =
     (let value = fieldValue values index
      in forEach_header rest (Suc index) values
           (obj_set header value obj, (if value \<noteq> [] then False else isRowEmpty)))"

text \<open>One pass of the \<^verbatim>\<open>for\<close> loop of lines 62-90 on \<open>data\<close>.\<close>

definition processLine :: "jsval list \<Rightarrow> string \<Rightarrow> string \<Rightarrow> js_object list \<Rightarrow> js_object list" where
  "processLine normalizedHeaders headerFingerprint line data =
     (let values = split_on comma line in
      if lt_times_0_7 (length values) (length normalizedHeaders)
         \<or> list_all (\<lambda>v. trim v = []) values
      then data
      else if concat (map cleanCell values) = headerFingerprint then data
      else (case forEach_header normalizedHeaders 0 values ([], True) of
              (obj, isRowEmpty) \<Rightarrow> if \<not> isRowEmpty then data @ [obj] else data))"

fun rowLoop :: "jsval list \<Rightarrow> string \<Rightarrow> string list \<Rightarrow> js_object list \<Rightarrow> js_object list" where
  "rowLoop normalizedHeaders headerFingerprint [] data = data"
| "rowLoop normalizedHeaders headerFingerprint (line # rest) data =
     rowLoop normalizedHeaders headerFingerprint rest
       (processLine normalizedHeaders headerFingerprint line data)"

text \<open>Line 28: the lines that are not blank.\<close>

definition csvLines :: "string \<Rightarrow> string list" where
  "csvLines csvText = filter (\<lambda>line. trim line \<noteq> []) (split_on newline csvText)"

definition normalizedHeadersOf :: "string \<Rightarrow> jsval list" where
  "normalizedHeadersOf headerLine = map normalizedHeader (map cleanCell (split_on comma headerLine))"

definition fingerprint :: "string \<Rightarrow> string" where
  "fingerprint line = concat (map cleanCell (split_on comma line))"

text \<open>Lines 29-92, from the non-blank lines on.\<close>

definition parseLines :: "string list \<Rightarrow> js_object list" where
  "parseLines lines =
     (if length lines \<le> 1 then []
      else rowLoop (normalizedHeadersOf (lines ! 0)) (fingerprint (lines ! 0)) (drop 1 lines) [])"

definition parseCSV :: "string \<Rightarrow> js_object list" where
  "parseCSV csvText = parseLines (csvLines csvText)"

section \<open>filterData\<close>

text \<open>Every value of a record is a string, so \<^verbatim>\<open>String(value)\<close> is the value.\<close>

definition filterData :: "string \<Rightarrow> js_object list \<Rightarrow> js_object list" where
  "filterData query data =
     (let lowerCaseQuery = toLowerCase query in
      filter (\<lambda>item. list_ex (\<lambda>value. includes_str (toLowerCase value) lowerCaseQuery) (map snd item)) data)"

section \<open>fetchData and fetchAndLoadData\<close>

text \<open>
  What \<^verbatim>\<open>await fetch(url)\<close> can do: reject (a network error), or resolve with a response
  that carries \<^verbatim>\<open>ok\<close>, \<^verbatim>\<open>status\<close> and the outcome of \<^verbatim>\<open>response.text()\<close> (\<open>None\<close> when
  reading the body rejects). The network is a function from the requested URL to that
  outcome, and the clock reading of \<^verbatim>\<open>new Date().getTime()\<close> is an argument.
\<close>

datatype fetch_outcome = Rejected | Response bool nat "string option"

text \<open>What a call leaves behind besides its result: the texts handed to \<^verbatim>\<open>parseCSV\<close> and the
  calls of \<^verbatim>\<open>console.error\<close>.\<close>

datatype event = ParseCSV string | ConsoleError

function digits :: "int \<Rightarrow> string" where
  "digits n = (if n < 10 then [char_of (48 + n)] else digits (n div 10) @ [char_of (48 + n mod 10)])"
  by pat_completeness auto
termination
  by (relation "measure nat") auto

declare digits.simps [simp del]

definition number_to_string :: "int \<Rightarrow> string" where
  "number_to_string n = (if n < 0 then ''-'' @ digits (- n) else digits n)"

definition cacheBusterUrl :: "string \<Rightarrow> int \<Rightarrow> string" where
  "cacheBusterUrl url now = url @ ''&timestamp='' @ number_to_string now"

definition fetchData :: "(string \<Rightarrow> fetch_outcome) \<Rightarrow> int \<Rightarrow> string \<Rightarrow> js_object list \<times> event list" where
  "fetchData fetch now url =
     (case fetch (cacheBusterUrl url now) of
        Rejected \<Rightarrow> ([], [ConsoleError])
      | Response ok status body \<Rightarrow>
          if \<not> ok then ([], [ConsoleError])
          else (case body of
                  None \<Rightarrow> ([], [ConsoleError])
                | Some csvText \<Rightarrow> (parseCSV csvText, [ParseCSV csvText])))"

definition DOCTORS_DB_URL :: string where
  "DOCTORS_DB_URL = ''https://docs.google.com/spreadsheets/d/e/2PACX-1vR-JME6LR_R-EW2xbHGu22JBdEXN5_wiayzwaZqaihS6IyHCjeEqoZKF3YItNoOmSRymeyECjnoQXN1/pub?output=csv''"

definition PATIENT_DB_URL :: string where
  "PATIENT_DB_URL = ''https://docs.google.com/spreadsheets/d/e/2PACX-1vTyFSHcy1tmkb1sk7VJJbakrbMTQRYv8KopB5rg1_JVXMwV3Jxg9W63EOEMZ-juwrPd7s1FKZD1eOQK/pub?output=csv''"

text \<open>The two module variables that hold the datasets. The writes to the page (the loading
  message, the redraw of the active screen) do not touch them and are left out.\<close>

record datasets =
  doctorsData :: "js_object list"
  databaseData :: "js_object list"

text \<open>Both calls of \<^verbatim>\<open>fetchData\<close> read the clock before either request is answered; the two
  results are stored whatever they are.\<close>

definition fetchAndLoadData ::
  "(string \<Rightarrow> fetch_outcome) \<Rightarrow> int \<Rightarrow> int \<Rightarrow> datasets \<Rightarrow> datasets \<times> event list" where
  "fetchAndLoadData fetch now1 now2 st =
     (case fetchData fetch now1 DOCTORS_DB_URL of
        (doctorsResult, events1) \<Rightarrow>
          (case fetchData fetch now2 PATIENT_DB_URL of
             (databaseResult, events2) \<Rightarrow>
               (st\<lparr>doctorsData := doctorsResult, databaseData := databaseResult\<rparr>,
                events1 @ events2)))"

section \<open>The claims in the words of the specification\<close>

text \<open>The record the specification describes for a row: one field for every header position,
  in header order, position \<open>i\<close> holding the trimmed \<open>i\<close>-th cell when the row has one and the
  empty string when it has not.\<close>

definition headerOrderRecord :: "jsval list \<Rightarrow> string list \<Rightarrow> js_object" where
  "headerOrderRecord normalizedHeaders values =
     zip normalizedHeaders
       (map (\<lambda>i. if i < length values then trim (values ! i) else []) [0 ..< length normalizedHeaders])"

text \<open>The canonical form of a raw header cell is \<open>cleanCell\<close> of it; these are the twelve keys
  of the rename table.\<close>

definition renameKeys :: "string list" where
  "renameKeys =
     [''name'', ''age'', ''gender'', ''dateofbirth'', ''contact'', ''systolicbp'', ''diastolicbp'',
      ''spo2'', ''heartrate'', ''temperature'', ''results'', ''doctor'']"

text \<open>A fetch has failed when it rejects or its response is not OK.\<close>

definition fetchFailed :: "fetch_outcome \<Rightarrow> bool" where
  "fetchFailed out = (case out of Rejected \<Rightarrow> True | Response ok status body \<Rightarrow> \<not> ok)"

section \<open>Lemmas\<close>

subsection \<open>Objects\<close>

lemma insert_index_set: "set (insert_index i k v obj) = insert (k, v) (set obj)"
  by (induction obj) (auto split: option.splits)

lemma insert_index_map_of:
  "k \<notin> fst ` set obj \<Longrightarrow> map_of (insert_index i k v obj) = (map_of obj)(k \<mapsto> v)"
  by (induction obj) (auto split: option.splits)

lemma insert_index_distinct:
  "k \<notin> fst ` set obj \<Longrightarrow> distinct (map fst obj) \<Longrightarrow> distinct (map fst (insert_index i k v obj))"
  by (induction obj) (auto split: option.splits simp: insert_index_set)

lemma obj_set_keys:
  "k \<noteq> Str ''__proto__'' \<Longrightarrow> fst ` set (obj_set k v obj) = insert k (fst ` set obj)"
  by (auto simp: obj_set_def insert_index_set AList.update_keys dom_update split: option.splits)

lemma append_map_of:
  "k \<notin> fst ` set obj \<Longrightarrow> map_of (obj @ [(k, v)]) = (map_of obj)(k \<mapsto> v)"
  by (induction obj) auto

lemma obj_set_map_of:
  "k \<noteq> Str ''__proto__'' \<Longrightarrow> map_of (obj_set k v obj) = (map_of obj)(k \<mapsto> v)"
  by (auto simp: obj_set_def insert_index_map_of append_map_of update_conv' simp del: map_of_append split: option.splits)

lemma obj_set_distinct:
  "distinct (map fst obj) \<Longrightarrow> distinct (map fst (obj_set k v obj))"
  by (auto simp: obj_set_def insert_index_distinct distinct_update split: option.splits)

lemma obj_set_append:
  "k \<noteq> Str ''__proto__'' \<Longrightarrow> key_index k = None \<Longrightarrow> k \<notin> fst ` set obj \<Longrightarrow> obj_set k v obj = obj @ [(k, v)]"
  by (auto simp: obj_set_def)

lemma trim_Nil: "trim [] = []" by (simp add: trim_def)

lemma fieldValue_cell:
  "fieldValue values i = (if i < length values then trim (values ! i) else [])"
  by (simp add: fieldValue_def trim_Nil)

lemma forEach_header_keys:
  "Str ''__proto__'' \<notin> set nh \<Longrightarrow>
   fst ` set (fst (forEach_header nh i vs (obj, e))) = fst ` set obj \<union> set nh"
proof (induction nh arbitrary: i obj e)
  case Nil
  then show ?case by simp
next
  case (Cons h nh)
  from Cons.prems have h: "h \<noteq> Str ''__proto__''" and nh: "Str ''__proto__'' \<notin> set nh" by auto
  show ?case
    by (simp add: Let_def Cons.IH [OF nh] obj_set_keys [OF h])
qed

lemma forEach_header_distinct:
  "distinct (map fst obj) \<Longrightarrow> distinct (map fst (fst (forEach_header nh i vs (obj, e))))"
  by (induction nh arbitrary: i obj e) (simp_all add: obj_set_distinct Let_def)

lemma map_upd_add: "(m(k \<mapsto> v)) ++ M = m ++ ([k \<mapsto> v] ++ M)"
  by (rule ext) (auto simp: map_add_def split: option.splits)

lemma forEach_header_map_of:
  "Str ''__proto__'' \<notin> set nh \<Longrightarrow>
   map_of (fst (forEach_header nh i vs (obj, e))) =
   map_of obj ++ map_of (rev (zip nh (map (fieldValue vs) [i ..< i + length nh])))"
proof (induction nh arbitrary: i obj e)
  case Nil
  then show ?case by simp
next
  case (Cons h nh)
  let ?R = "map_of (rev (zip nh (map (fieldValue vs) [Suc i ..< Suc i + length nh])))"
  have up: "[i ..< i + length (h # nh)] = i # [Suc i ..< Suc i + length nh]"
    by (simp add: upt_rec)
  from Cons.prems have h: "h \<noteq> Str ''__proto__''" and nh: "Str ''__proto__'' \<notin> set nh" by auto
  have "map_of (fst (forEach_header (h # nh) i vs (obj, e))) =
        map_of (obj_set h (fieldValue vs i) obj) ++ ?R"
    by (simp add: Let_def Cons.IH [OF nh])
  also have "\<dots> = (map_of obj)(h \<mapsto> fieldValue vs i) ++ ?R"
    by (simp only: obj_set_map_of [OF h])
  also have "\<dots> = map_of obj ++ ([h \<mapsto> fieldValue vs i] ++ ?R)"
    by (rule map_upd_add)
  also have "[h \<mapsto> fieldValue vs i] ++ ?R =
      map_of (rev (zip (h # nh) (map (fieldValue vs) [i ..< i + length (h # nh)])))"
    unfolding up by simp
  finally show ?case .
qed

lemma forEach_header_flag:
  "snd (forEach_header nh i vs (obj, e)) = (e \<and> list_all (\<lambda>j. fieldValue vs j = []) [i ..< i + length nh])"
proof (induction nh arbitrary: i obj e)
  case Nil
  then show ?case by simp
next
  case (Cons h nh)
  have up: "[i ..< i + length (h # nh)] = i # [Suc i ..< Suc i + length nh]"
    by (simp add: upt_rec)
  show ?case
    unfolding up
    by (simp add: Let_def Cons.IH del: upt_Suc) 
qed

lemma forEach_header_ordered:
  "Str ''__proto__'' \<notin> set nh \<Longrightarrow> list_all (\<lambda>k. key_index k = None) nh \<Longrightarrow> distinct nh \<Longrightarrow>
   set nh \<inter> fst ` set obj = {} \<Longrightarrow>
   fst (forEach_header nh i vs (obj, e)) = obj @ zip nh (map (fieldValue vs) [i ..< i + length nh])"
proof (induction nh arbitrary: i obj e)
  case Nil
  then show ?case by simp
next
  case (Cons h nh)
  have up: "[i ..< i + length (h # nh)] = i # [Suc i ..< Suc i + length nh]"
    by (simp add: upt_rec)
  from Cons.prems(1) have h: "h \<noteq> Str ''__proto__''" and nh: "Str ''__proto__'' \<notin> set nh" by auto
  from Cons.prems(2) have ki: "key_index h = None" and r1: "list_all (\<lambda>k. key_index k = None) nh" by simp_all
  from Cons.prems(3) have hnh: "h \<notin> set nh" and r2: "distinct nh" by simp_all
  from Cons.prems(4) have hn: "h \<notin> fst ` set obj" and d0: "set nh \<inter> fst ` set obj = {}" by simp_all
  have step: "obj_set h v obj = obj @ [(h, v)]" for v
    by (rule obj_set_append [OF h ki hn])
  from d0 hnh have disj: "set nh \<inter> fst ` set (obj @ [(h, fieldValue vs i)]) = {}"
    by simp
  have "fst (forEach_header (h # nh) i vs (obj, e)) =
        fst (forEach_header nh (Suc i) vs (obj @ [(h, fieldValue vs i)], (if fieldValue vs i \<noteq> [] then False else e)))"
    by (simp add: Let_def step)
  also have "\<dots> = (obj @ [(h, fieldValue vs i)]) @ zip nh (map (fieldValue vs) [Suc i ..< Suc i + length nh])"
    by (rule Cons.IH [OF nh r1 r2 disj])
  finally show ?case
    unfolding up by simp
qed

subsection \<open>The loop over the rows\<close>

lemma rowLoop_length: "length (rowLoop nh fp rows data) \<le> length data + length rows"
proof (induction rows arbitrary: data)
  case Nil
  then show ?case by simp
next
  case (Cons row rows)
  have "length (processLine nh fp row data) \<le> Suc (length data)"
    by (simp add: processLine_def Let_def split: prod.splits)
  with Cons [of "processLine nh fp row data"] show ?case by simp
qed

lemma rowLoop_filter:
  "(\<And>row d. row \<in> set rows \<Longrightarrow> \<not> P row \<Longrightarrow> processLine nh fp row d = d) \<Longrightarrow>
   rowLoop nh fp (filter P rows) data = rowLoop nh fp rows data"
  by (induction rows arbitrary: data) simp_all

lemma processLine_duplicate:
  "fingerprint row = fp \<Longrightarrow> processLine nh fp row data = data"
  by (simp add: processLine_def fingerprint_def Let_def)

lemma processLine_blank:
  "list_all (\<lambda>v. trim v = []) (split_on comma row) \<Longrightarrow> processLine nh fp row data = data"
  by (simp add: processLine_def Let_def)

lemma processLine_short:
  "lt_times_0_7 (length (split_on comma row)) (length nh) \<Longrightarrow> processLine nh fp row data = data"
  by (simp add: processLine_def Let_def)

lemma parseLines_filter:
  "(\<And>row d. row \<in> set rows \<Longrightarrow> \<not> P row \<Longrightarrow>
      processLine (normalizedHeadersOf headerLine) (fingerprint headerLine) row d = d) \<Longrightarrow>
   parseLines (headerLine # filter P rows) = parseLines (headerLine # rows)"
proof -
  assume a: "\<And>row d. row \<in> set rows \<Longrightarrow> \<not> P row \<Longrightarrow>
      processLine (normalizedHeadersOf headerLine) (fingerprint headerLine) row d = d"
  have r: "rowLoop (normalizedHeadersOf headerLine) (fingerprint headerLine) (filter P rows) [] =
        rowLoop (normalizedHeadersOf headerLine) (fingerprint headerLine) rows []"
    by (rule rowLoop_filter) (rule a)
  have e: "parseLines (headerLine # xs) =
      rowLoop (normalizedHeadersOf headerLine) (fingerprint headerLine) xs []" for xs
    by (cases xs) (simp_all add: parseLines_def)
  show ?thesis by (simp add: e r)
qed

subsection \<open>The product with 0.7\<close>

lemma bit_length_le: "n < 2 ^ k \<Longrightarrow> bit_length n \<le> k"
proof (induction k arbitrary: n)
  case 0
  then show ?case by (simp add: bit_length.simps)
next
  case (Suc k)
  show ?case
  proof (cases "n \<le> 0")
    case True
    then show ?thesis by (simp add: bit_length.simps)
  next
    case False
    from Suc.prems have "n div 2 < 2 ^ k" by simp
    then have "bit_length (n div 2) \<le> k" by (rule Suc.IH)
    with False show ?thesis by (subst bit_length.simps) simp
  qed
qed

lemma round_up_le:
  fixes P q r t :: int
  assumes P: "0 < P" and r: "0 < r" and le: "q * P + r \<le> t * P"
  shows "(q + 1) * P \<le> t * P"
proof -
  from r le have "q * P < t * P" by linarith
  with P have "q < t" by (simp add: mult_less_cancel_right)
  then have "q + 1 \<le> t" by simp
  with P show ?thesis by (simp add: mult_right_mono)
qed

lemma round53_bounds:
  fixes N :: int
  assumes N: "0 \<le> N" and s: "s = bit_length N - 53"
  shows "2 * (N - round53 N) \<le> 2 ^ s"
    and "N \<le> t * 2 ^ s \<Longrightarrow> round53 N \<le> t * 2 ^ s"
proof -
  define P :: int where "P = 2 ^ s"
  define q where "q = N div P"
  define r where "r = N mod P"
  define Q where "Q = q * P"
  define T where "T = t * P"
  have P: "0 < P" by (simp add: P_def)
  have r0: "0 \<le> r" and rP: "r < P" using P by (simp_all add: r_def)
  have N_eq: "N = Q + r" by (simp add: Q_def q_def r_def)
  have R: "round53 N = (if P < 2 * r \<or> (2 * r = P \<and> odd q) then Q + P else Q)"
    by (simp add: round53_def Let_def s [symmetric] P_def Q_def q_def r_def algebra_simps)
  have "2 * (N - round53 N) \<le> P"
  proof (cases "P < 2 * r \<or> (2 * r = P \<and> odd q)")
    case True
    then have "round53 N = Q + P" unfolding R by (rule if_P)
    with N_eq r0 rP P show ?thesis by simp
  next
    case False
    then have "round53 N = Q" unfolding R by (rule if_not_P)
    moreover from False have "2 * r \<le> P" by auto
    ultimately show ?thesis using N_eq by simp
  qed
  then show "2 * (N - round53 N) \<le> 2 ^ s" by (simp add: P_def)
  show "round53 N \<le> t * 2 ^ s" if le: "N \<le> t * 2 ^ s"
  proof -
    from le have leT: "Q + r \<le> T" by (simp add: N_eq [symmetric] T_def P_def)
    have "round53 N \<le> T"
    proof (cases "P < 2 * r \<or> (2 * r = P \<and> odd q)")
      case True
      with P have "0 < r" by auto
      moreover from leT have "q * P + r \<le> t * P" by (simp add: Q_def T_def)
      ultimately have "(q + 1) * P \<le> t * P" using P by (intro round_up_le)
      then have "Q + P \<le> T" by (simp add: Q_def T_def algebra_simps)
      moreover from True have "round53 N = Q + P" unfolding R by (rule if_P)
      ultimately show ?thesis by simp
    next
      case False
      then have "round53 N = Q" unfolding R by (rule if_not_P)
      with r0 leT show ?thesis by linarith
    qed
    then show ?thesis by (simp add: T_def P_def)
  qed
qed

lemma lt_times_0_7_exact:
  assumes n: "n < 2 ^ 32"
  shows "lt_times_0_7 v n \<longleftrightarrow> 10 * v < 7 * n"
proof -
  define N :: int where "N = int n * 3152519739159347"
  define s where "s = bit_length N - 53"
  have N0: "0 \<le> N" by (simp add: N_def)
  from n have n': "int n < 4294967296" by simp
  then have "N < 4294967296 * 3152519739159347" unfolding N_def by linarith
  also have "\<dots> < (2::int) ^ 84" by simp
  finally have "bit_length N \<le> 84" by (rule bit_length_le)
  then have s31: "s \<le> 31" by (simp add: s_def)
  then have "(2::int) ^ s \<le> 2 ^ 31" by (intro power_increasing) simp_all
  then have P31: "(2::int) ^ s \<le> 2147483648" by simp
  have ten: "10 * N = 7 * int n * 4503599627370496 - 2 * int n" by (simp add: N_def)
  have lo: "2 * (N - round53 N) \<le> 2 ^ s"
    by (rule round53_bounds(1) [OF N0 s_def])
  have lt: "lt_times_0_7 v n \<longleftrightarrow> int v * 4503599627370496 < round53 N"
    by (simp add: lt_times_0_7_def N_def)
  show ?thesis
  proof (cases "10 * v < 7 * n")
    case True
    then have "10 * int v + 1 \<le> 7 * int n" by linarith
    then have "(10 * int v + 1) * 4503599627370496 \<le> 7 * int n * 4503599627370496" by simp
    with ten n' lo P31 have "int v * 4503599627370496 < round53 N" by simp
    with True lt show ?thesis by simp
  next
    case False
    then have "7 * int n \<le> 10 * int v" by linarith
    then have "7 * int n * 4503599627370496 \<le> 10 * int v * 4503599627370496" by simp
    with ten have le: "N \<le> int v * 4503599627370496" by linarith
    have "(2::int) ^ 52 = 2 ^ (52 - s) * 2 ^ s"
      using s31 by (simp add: power_add [symmetric])
    then have "int v * 4503599627370496 = (int v * 2 ^ (52 - s)) * 2 ^ s" by simp
    with le have "N \<le> (int v * 2 ^ (52 - s)) * 2 ^ s" by simp
    then have "round53 N \<le> (int v * 2 ^ (52 - s)) * 2 ^ s"
      by (rule round53_bounds(2) [OF N0 s_def])
    also have "\<dots> = int v * 4503599627370496"
      using \<open>int v * 4503599627370496 = (int v * 2 ^ (52 - s)) * 2 ^ s\<close> by simp
    finally have "\<not> int v * 4503599627370496 < round53 N" by simp
    with False lt show ?thesis by simp
  qed
qed

subsection \<open>Headers\<close>

lemma headerMap_value_nonempty: "map_of headerMap h = Some v \<Longrightarrow> v \<noteq> []"
  by (auto simp: headerMap_def split: if_splits)

lemma normalizedHeader_eq:
  "normalizedHeader h =
     (case map_of headerMap h of
        Some v \<Rightarrow> Str v
      | None \<Rightarrow> if h \<in> set object_prototype_names then Inherited h else Str h)"
  by (auto simp: normalizedHeader_def headerMap_get_def truthy_def
      dest: headerMap_value_nonempty split: option.splits)

lemma normalizedHeader_unmapped:
  "h \<notin> set renameKeys \<Longrightarrow> h \<notin> set object_prototype_names \<Longrightarrow> normalizedHeader h = Str h"
proof -
  assume a: "h \<notin> set renameKeys" and b: "h \<notin> set object_prototype_names"
  have "map fst headerMap = renameKeys" by (simp add: headerMap_def renameKeys_def)
  with a have "h \<notin> fst ` set headerMap" by (metis set_map)
  then have "map_of headerMap h = None" by (simp add: map_of_eq_None_iff)
  with b show ?thesis by (simp add: normalizedHeader_eq)
qed

lemma cleanCell_chars: "c \<in> set (cleanCell h) \<Longrightarrow> is_a_z0_9 c"
  by (simp add: cleanCell_def)

lemma underscore_not_a_z0_9: "\<not> is_a_z0_9 CHR ''_''"
  by (simp add: is_a_z0_9_def)

lemma cleanCell_not_proto: "cleanCell h \<noteq> ''__proto__''"
proof
  assume "cleanCell h = ''__proto__''"
  then have "CHR ''_'' \<in> set (cleanCell h)" by simp
  then show False using underscore_not_a_z0_9 by (auto dest: cleanCell_chars)
qed

lemma normalizedHeader_not_proto: "normalizedHeader (cleanCell h) \<noteq> Str ''__proto__''"
proof
  assume a: "normalizedHeader (cleanCell h) = Str ''__proto__''"
  show False
  proof (cases "map_of headerMap (cleanCell h)")
    case None
    with a show False using cleanCell_not_proto [of h]
      by (simp add: normalizedHeader_eq split: if_splits)
  next
    case (Some v)
    with a have "v = ''__proto__''" by (simp add: normalizedHeader_eq)
    with Some show False by (auto simp: headerMap_def split: if_splits)
  qed
qed

lemma normalizedHeadersOf_no_proto: "Str ''__proto__'' \<notin> set (normalizedHeadersOf headerLine)"
proof
  assume "Str ''__proto__'' \<in> set (normalizedHeadersOf headerLine)"
  then obtain h where "normalizedHeader (cleanCell h) = Str ''__proto__''"
    by (auto simp: normalizedHeadersOf_def)
  with normalizedHeader_not_proto show False by blast
qed

lemma length_normalizedHeadersOf:
  "length (normalizedHeadersOf headerLine) = length (split_on comma headerLine)"
  by (simp add: normalizedHeadersOf_def)

text \<open>Of the names a plain object inherits, only \<open>constructor\<close> can be a cleaned cell.\<close>

lemma cleanCell_a_z0_9: "list_all is_a_z0_9 (cleanCell c)"
  by (simp add: cleanCell_def list_all_iff)

lemma object_prototype_names_shape:
  "list_all (\<lambda>n. n = ''constructor'' \<or> \<not> list_all is_a_z0_9 n) object_prototype_names"
  by code_simp

lemma cleanCell_prototype_name:
  "cleanCell c \<in> set object_prototype_names \<Longrightarrow> cleanCell c = ''constructor''"
  using object_prototype_names_shape cleanCell_a_z0_9 [of c]
  by (auto simp: list_all_iff)

lemma normalizedHeader_cleanCell_unmapped:
  "cleanCell c \<notin> set renameKeys \<Longrightarrow> cleanCell c \<noteq> ''constructor'' \<Longrightarrow>
   normalizedHeader (cleanCell c) = Str (cleanCell c)"
  using cleanCell_prototype_name normalizedHeader_unmapped by blast

subsection \<open>Where a record comes from\<close>

lemma processLine_member:
  assumes "r \<in> set (processLine nh fp row data)"
  shows "r \<in> set data \<or> r = fst (forEach_header nh 0 (split_on comma row) ([], True))"
proof -
  obtain obj e where "forEach_header nh 0 (split_on comma row) ([], True) = (obj, e)"
    by (cases "forEach_header nh 0 (split_on comma row) ([], True)")
  with assms show ?thesis
    by (auto simp: processLine_def Let_def split: if_splits)
qed

lemma rowLoop_member:
  "r \<in> set (rowLoop nh fp rows data) \<Longrightarrow>
   r \<in> set data \<or> (\<exists>row\<in>set rows. r = fst (forEach_header nh 0 (split_on comma row) ([], True)))"
proof (induction rows arbitrary: data)
  case Nil
  then show ?case by simp
next
  case (Cons row rows)
  from Cons.prems have "r \<in> set (rowLoop nh fp rows (processLine nh fp row data))" by simp
  then have "r \<in> set (processLine nh fp row data) \<or>
      (\<exists>row\<in>set rows. r = fst (forEach_header nh 0 (split_on comma row) ([], True)))"
    by (rule Cons.IH)
  then show ?case using processLine_member [of r nh fp row data] by auto
qed

lemma parseLines_Cons:
  "parseLines (headerLine # rows) =
     rowLoop (normalizedHeadersOf headerLine) (fingerprint headerLine) rows []"
  by (cases rows) (simp_all add: parseLines_def)

lemma parseCSV_member:
  assumes "r \<in> set (parseCSV csvText)"
  shows "\<exists>headerLine rows row. csvLines csvText = headerLine # rows \<and> row \<in> set rows \<and>
     r = fst (forEach_header (normalizedHeadersOf headerLine) 0 (split_on comma row) ([], True))"
proof (cases "csvLines csvText")
  case Nil
  with assms show ?thesis by (simp add: parseCSV_def parseLines_def)
next
  case (Cons headerLine rows)
  with assms have "r \<in> set (rowLoop (normalizedHeadersOf headerLine) (fingerprint headerLine) rows [])"
    by (simp add: parseCSV_def parseLines_Cons)
  then obtain row where "row \<in> set rows"
    and "r = fst (forEach_header (normalizedHeadersOf headerLine) 0 (split_on comma row) ([], True))"
    using rowLoop_member by fastforce
  with Cons show ?thesis by blast
qed

lemma fieldValue_fun:
  "(\<lambda>i. if i < length vs then trim (vs ! i) else []) = fieldValue vs"
  by (rule ext) (simp add: fieldValue_cell)

lemma headerOrderRecord_fieldValue:
  "headerOrderRecord nh vs = zip nh (map (fieldValue vs) [0 ..< length nh])"
  by (simp add: headerOrderRecord_def fieldValue_fun)

lemma forEach_header_record:
  assumes "Str ''__proto__'' \<notin> set nh"
    and "r = fst (forEach_header nh 0 vs ([], True))"
  shows "map_of r = map_of (rev (headerOrderRecord nh vs))"
    and "fst ` set r = set nh"
    and "distinct (map fst r)"
    and "distinct nh \<Longrightarrow> list_all (\<lambda>k. key_index k = None) nh \<Longrightarrow> r = headerOrderRecord nh vs"
proof -
  show "map_of r = map_of (rev (headerOrderRecord nh vs))"
    using forEach_header_map_of [OF assms(1), of 0 vs "[]" True]
    by (simp add: assms(2) headerOrderRecord_fieldValue)
  show "fst ` set r = set nh"
    using forEach_header_keys [OF assms(1), of 0 vs "[]" True] by (simp add: assms(2))
  show "distinct (map fst r)"
    using forEach_header_distinct [of "[]" nh 0 vs True] by (simp add: assms(2))
  show "r = headerOrderRecord nh vs"
    if "distinct nh" and "list_all (\<lambda>k. key_index k = None) nh"
    using forEach_header_ordered [OF assms(1) that(2) that(1), of "[]" 0 vs True]
    by (simp add: assms(2) headerOrderRecord_fieldValue)
qed

subsection \<open>Searching\<close>

lemma includes_str_sublist: "includes_str s q \<longleftrightarrow> sublist q s"
  by (induction s) (simp_all add: sublist_Cons_right)

lemma includes_str_Nil: "includes_str s []"
  by (cases s) simp_all

section \<open>Properties of parseCSV\<close>

text \<open>
  C2, as the code has it. A record is an object keyed by header name, so it has one field for
  each distinct normalized header, and a name that stands at several header positions holds
  the cell of the last of them: for every record of the output there is a data row of which
  the record is, as a mapping, the fields of \<open>headerOrderRecord\<close> with later positions
  overriding earlier ones. When the normalized headers are pairwise distinct and none of them
  is an array index, the record is \<open>headerOrderRecord\<close> itself: the fields stand in header
  order, position \<open>i\<close> holding the trimmed \<open>i\<close>-th cell of the row, or the empty string when
  the row has fewer cells than the header.
\<close>

theorem parseCSV_record_fields:
  assumes "r \<in> set (parseCSV csvText)"
  shows "\<exists>headerLine rows row.
           csvLines csvText = headerLine # rows \<and> row \<in> set rows \<and>
           map_of r = map_of (rev (headerOrderRecord (normalizedHeadersOf headerLine) (split_on comma row))) \<and>
           fst ` set r = set (normalizedHeadersOf headerLine) \<and>
           distinct (map fst r) \<and>
           (distinct (normalizedHeadersOf headerLine) \<and>
            list_all (\<lambda>k. key_index k = None) (normalizedHeadersOf headerLine) \<longrightarrow>
            r = headerOrderRecord (normalizedHeadersOf headerLine) (split_on comma row))"
proof -
  from parseCSV_member [OF assms] obtain headerLine rows row where
    l: "csvLines csvText = headerLine # rows" and m: "row \<in> set rows" and
    r: "r = fst (forEach_header (normalizedHeadersOf headerLine) 0 (split_on comma row) ([], True))"
    by blast
  note f = forEach_header_record [OF normalizedHeadersOf_no_proto r]
  from l m f(1) f(2) f(3) f(4) show ?thesis by blast
qed

theorem parseCSV_record_fields_witness:
  "\<exists>headerLine rows row.
     csvLines (''Name,Age,Gender,Doctor'' @ [newline] @ ''Alice, 30 ,F'') = headerLine # rows \<and>
     row \<in> set rows \<and>
     map_of [(Str ''name'', ''Alice''), (Str ''age'', ''30''), (Str ''gender'', ''F''), (Str ''doctor'', [])] =
       map_of (rev (headerOrderRecord (normalizedHeadersOf headerLine) (split_on comma row)))"
proof -
  have "[(Str ''name'', ''Alice''), (Str ''age'', ''30''), (Str ''gender'', ''F''), (Str ''doctor'', [])]
      \<in> set (parseCSV (''Name,Age,Gender,Doctor'' @ [newline] @ ''Alice, 30 ,F''))"
    by code_simp
  from parseCSV_record_fields [OF this] show ?thesis by blast
qed

text \<open>
  C2, as the claim states it, fails where a header name is repeated: under the header
  \<open>a,a\<close> the row \<open>1,2\<close> gives the record with the single field \<open>a = 2\<close>, not a field for
  each of the two header positions.
\<close>

theorem parseCSV_record_fields_counterexample:
  "parseCSV (''a,a'' @ [newline] @ ''1,2'') = [[(Str ''a'', ''2'')]] \<and>
   headerOrderRecord (normalizedHeadersOf ''a,a'') (split_on comma ''1,2'')
     = [(Str ''a'', ''1''), (Str ''a'', ''2'')] \<and>
   \<not> (\<forall>r \<in> set (parseCSV (''a,a'' @ [newline] @ ''1,2'')).
        r = headerOrderRecord (normalizedHeadersOf ''a,a'') (split_on comma ''1,2''))"
  by code_simp

text \<open>
  C3. A data row whose cleaned cells, concatenated, equal the cleaned and concatenated cells
  of the header row is left out of the output of parseCSV: the pass of the loop over such a
  row leaves \<open>data\<close> as it was, and the output is the output for the input without these
  rows. Parsing \<open>Name,Age\<close>, \<open>Name,Age\<close>, \<open>Alice,30\<close> gives exactly one record.
\<close>

theorem duplicate_header_rows_excluded:
  "(fingerprint row = fingerprint headerLine \<longrightarrow>
      processLine (normalizedHeadersOf headerLine) (fingerprint headerLine) row data = data)
   \<and> (csvLines csvText = headerLine # rows \<longrightarrow>
      parseCSV csvText =
        parseLines (headerLine # filter (\<lambda>row. fingerprint row \<noteq> fingerprint headerLine) rows))
   \<and> parseCSV (''Name,Age'' @ [newline] @ ''Name,Age'' @ [newline] @ ''Alice,30'')
       = [[(Str ''name'', ''Alice''), (Str ''age'', ''30'')]]"
proof (intro conjI impI)
  show "processLine (normalizedHeadersOf headerLine) (fingerprint headerLine) row data = data"
    if "fingerprint row = fingerprint headerLine"
    using that by (rule processLine_duplicate)
  show "parseCSV csvText =
      parseLines (headerLine # filter (\<lambda>row. fingerprint row \<noteq> fingerprint headerLine) rows)"
    if "csvLines csvText = headerLine # rows"
  proof -
    have "parseLines (headerLine # filter (\<lambda>row. fingerprint row \<noteq> fingerprint headerLine) rows)
        = parseLines (headerLine # rows)"
      by (rule parseLines_filter) (simp add: processLine_duplicate)
    with that show ?thesis by (simp add: parseCSV_def)
  qed
  show "parseCSV (''Name,Age'' @ [newline] @ ''Name,Age'' @ [newline] @ ''Alice,30'')
       = [[(Str ''name'', ''Alice''), (Str ''age'', ''30'')]]"
    by code_simp
qed

theorem duplicate_header_rows_excluded_witness:
  "fingerprint ''NAME , age'' = fingerprint ''Name,Age''
   \<and> processLine (normalizedHeadersOf ''Name,Age'') (fingerprint ''Name,Age'') ''NAME , age'' [] = []
   \<and> csvLines (''Name,Age'' @ [newline] @ ''NAME , age'' @ [newline] @ ''Alice,30'')
       = [''Name,Age'', ''NAME , age'', ''Alice,30'']
   \<and> parseCSV (''Name,Age'' @ [newline] @ ''NAME , age'' @ [newline] @ ''Alice,30'')
       = parseLines [''Name,Age'', ''Alice,30'']"
proof -
  have f: "fingerprint ''NAME , age'' = fingerprint ''Name,Age''"
    by code_simp
  have l: "csvLines (''Name,Age'' @ [newline] @ ''NAME , age'' @ [newline] @ ''Alice,30'')
       = [''Name,Age'', ''NAME , age'', ''Alice,30'']"
    by code_simp
  have k: "filter (\<lambda>row. fingerprint row \<noteq> fingerprint ''Name,Age'') [''NAME , age'', ''Alice,30'']
       = [''Alice,30'']"
    by code_simp
  from duplicate_header_rows_excluded
    [of "''NAME , age''" "''Name,Age''" "[]"
        "''Name,Age'' @ [newline] @ ''NAME , age'' @ [newline] @ ''Alice,30''"
        "[''NAME , age'', ''Alice,30'']"]
    f l k
  show ?thesis by simp
qed

text \<open>
  C4. A data line gives no record when the number of its comma-separated cells is less than
  70 percent of the number of header cells, or when all its cells are blank after trimming:
  the pass of the loop over such a line leaves \<open>data\<close> as it was, and the output is the output
  for the input without these lines. The header has fewer than 2^32 cells, as every array
  of the program has. \<open>Name,Age,Gender\<close> followed by \<open>Alice,30\<close> parses to the empty
  sequence, and so does \<open>Name,Age\<close> followed by a line with a single comma.
\<close>

theorem short_and_blank_rows_excluded:
  "(length (split_on comma headerLine) < 2 ^ 32 \<and>
    10 * length (split_on comma row) < 7 * length (split_on comma headerLine) \<longrightarrow>
      processLine (normalizedHeadersOf headerLine) (fingerprint headerLine) row data = data)
   \<and> (list_all (\<lambda>v. trim v = []) (split_on comma row) \<longrightarrow>
      processLine (normalizedHeadersOf headerLine) (fingerprint headerLine) row data = data)
   \<and> (length (split_on comma headerLine) < 2 ^ 32 \<and> csvLines csvText = headerLine # rows \<longrightarrow>
      parseCSV csvText =
        parseLines (headerLine #
          filter (\<lambda>row. \<not> (10 * length (split_on comma row) < 7 * length (split_on comma headerLine)
                          \<or> list_all (\<lambda>v. trim v = []) (split_on comma row))) rows))
   \<and> parseCSV (''Name,Age,Gender'' @ [newline] @ ''Alice,30'') = []
   \<and> parseCSV (''Name,Age'' @ [newline] @ '','' @ [newline]) = []"
proof (intro conjI impI)
  have skip: "processLine (normalizedHeadersOf headerLine) fp line d = d"
    if "length (split_on comma headerLine) < 2 ^ 32"
      and "10 * length (split_on comma line) < 7 * length (split_on comma headerLine)
           \<or> list_all (\<lambda>v. trim v = []) (split_on comma line)"
    for fp line d
  proof -
    from that(1) have "lt_times_0_7 (length (split_on comma line)) (length (normalizedHeadersOf headerLine))
        \<longleftrightarrow> 10 * length (split_on comma line) < 7 * length (split_on comma headerLine)"
      by (simp add: lt_times_0_7_exact length_normalizedHeadersOf)
    with that(2) show ?thesis
      using processLine_short processLine_blank by blast
  qed
  show "processLine (normalizedHeadersOf headerLine) (fingerprint headerLine) row data = data"
    if "length (split_on comma headerLine) < 2 ^ 32 \<and>
        10 * length (split_on comma row) < 7 * length (split_on comma headerLine)"
    using that skip by blast
  show "processLine (normalizedHeadersOf headerLine) (fingerprint headerLine) row data = data"
    if "list_all (\<lambda>v. trim v = []) (split_on comma row)"
    using that by (rule processLine_blank)
  show "parseCSV csvText =
        parseLines (headerLine #
          filter (\<lambda>row. \<not> (10 * length (split_on comma row) < 7 * length (split_on comma headerLine)
                          \<or> list_all (\<lambda>v. trim v = []) (split_on comma row))) rows)"
    if a: "length (split_on comma headerLine) < 2 ^ 32 \<and> csvLines csvText = headerLine # rows"
  proof -
    have "parseLines (headerLine #
          filter (\<lambda>row. \<not> (10 * length (split_on comma row) < 7 * length (split_on comma headerLine)
                          \<or> list_all (\<lambda>v. trim v = []) (split_on comma row))) rows)
        = parseLines (headerLine # rows)"
      by (rule parseLines_filter) (use a skip in blast)
    with a show ?thesis by (simp add: parseCSV_def)
  qed
  show "parseCSV (''Name,Age,Gender'' @ [newline] @ ''Alice,30'') = []"
    by code_simp
  show "parseCSV (''Name,Age'' @ [newline] @ '','' @ [newline]) = []"
    by code_simp
qed

theorem short_and_blank_rows_excluded_witness:
  "length (split_on comma ''Name,Age,Gender'') < 2 ^ 32
   \<and> 10 * length (split_on comma ''Alice,30'') < 7 * length (split_on comma ''Name,Age,Gender'')
   \<and> processLine (normalizedHeadersOf ''Name,Age,Gender'') (fingerprint ''Name,Age,Gender'') ''Alice,30'' [] = []
   \<and> csvLines (''Name,Age,Gender'' @ [newline] @ ''Alice,30'') = [''Name,Age,Gender'', ''Alice,30'']
   \<and> parseCSV (''Name,Age,Gender'' @ [newline] @ ''Alice,30'') = parseLines [''Name,Age,Gender'']"
proof -
  have n: "length (split_on comma ''Name,Age,Gender'') = 3" "length (split_on comma ''Alice,30'') = 2"
    by code_simp+
  have l: "csvLines (''Name,Age,Gender'' @ [newline] @ ''Alice,30'') = [''Name,Age,Gender'', ''Alice,30'']"
    by code_simp
  from short_and_blank_rows_excluded
    [of "''Name,Age,Gender''" "''Alice,30''" "[]"
        "''Name,Age,Gender'' @ [newline] @ ''Alice,30''" "[''Alice,30'']"]
    n l
  show ?thesis by simp
qed

text \<open>
  C6, as the code has it. The output of parseCSV has at most as many records as the input
  has non-blank lines, minus 1, when the input has a non-blank line, and no record when it
  has none.
\<close>

theorem parseCSV_length_bound:
  "int (length (parseCSV csvText)) \<le> max 0 (int (length (csvLines csvText)) - 1)"
proof (cases "length (csvLines csvText) \<le> 1")
  case True
  then show ?thesis by (simp add: parseCSV_def parseLines_def)
next
  case False
  have "length (parseCSV csvText) \<le> length (drop 1 (csvLines csvText))"
    using rowLoop_length [of _ _ "drop 1 (csvLines csvText)" "[]"] False
    by (simp add: parseCSV_def parseLines_def)
  with False show ?thesis by simp
qed

text \<open>
  C6, as the claim states it, fails for the empty text: it has no non-blank line, so the
  bound of the claim is -1, and the output has length 0.
\<close>

theorem parseCSV_length_bound_counterexample:
  "length (csvLines []) = 0 \<and> length (parseCSV []) = 0
   \<and> \<not> int (length (parseCSV [])) \<le> int (length (csvLines [])) - 1"
  by code_simp

text \<open>
  C5. An input with fewer than two lines that are non-empty after trimming, the empty text
  among them, parses to the empty sequence.
\<close>

theorem parseCSV_few_lines:
  "(length (filter (\<lambda>line. trim line \<noteq> []) (split_on newline csvText)) < 2 \<longrightarrow> parseCSV csvText = [])
   \<and> parseCSV [] = []"
  by (simp add: parseCSV_def parseLines_def csvLines_def)

theorem parseCSV_few_lines_witness:
  "length (filter (\<lambda>line. trim line \<noteq> []) (split_on newline ''Name,Age'')) < 2
   \<and> parseCSV ''Name,Age'' = []"
proof -
  have h: "length (filter (\<lambda>line. trim line \<noteq> []) (split_on newline ''Name,Age'')) < 2"
    by code_simp
  with parseCSV_few_lines [of "''Name,Age''"] show ?thesis by blast
qed

text \<open>
  C7. A header cell whose canonical form is none of the twelve keys of the rename table
  should keep that form as its field name. The lookup \<^verbatim>\<open>headerMap[h]\<close> also finds what the
  table inherits, so the header cell \<open>Constructor\<close>, whose canonical form \<open>constructor\<close> is
  not a key of the table, is replaced by the inherited member of that name, and the record
  is keyed by the text of that member instead of \<open>constructor\<close>.
\<close>

theorem constructor_header_replaced:
  "cleanCell ''Constructor'' = ''constructor''
   \<and> ''constructor'' \<notin> set renameKeys
   \<and> normalizedHeader (cleanCell ''Constructor'') = Inherited ''constructor''
   \<and> normalizedHeader (cleanCell ''Constructor'') \<noteq> Str (cleanCell ''Constructor'')
   \<and> parseCSV (''Constructor,Name'' @ [newline] @ ''x,Alice'')
       = [[(Inherited ''constructor'', ''x''), (Str ''name'', ''Alice'')]]"
  by code_simp

text \<open>
  C8. The header cell \<open>Systolic BP\<close> becomes the field name \<open>systolic\<close> and the header cell
  \<open>Diastolic BP\<close> becomes \<open>diastolic\<close>; every record parsed under a header row with such a
  cell has the key \<open>systolic\<close>, respectively \<open>diastolic\<close>.
\<close>

theorem systolic_diastolic_keys:
  "normalizedHeader (cleanCell ''Systolic BP'') = Str ''systolic''
   \<and> normalizedHeader (cleanCell ''Diastolic BP'') = Str ''diastolic''
   \<and> (r \<in> set (parseCSV csvText) \<and> csvLines csvText = headerLine # rows
        \<and> ''Systolic BP'' \<in> set (split_on comma headerLine) \<longrightarrow> Str ''systolic'' \<in> fst ` set r)
   \<and> (r \<in> set (parseCSV csvText) \<and> csvLines csvText = headerLine # rows
        \<and> ''Diastolic BP'' \<in> set (split_on comma headerLine) \<longrightarrow> Str ''diastolic'' \<in> fst ` set r)
   \<and> parseCSV (''Name,Systolic BP,Diastolic BP'' @ [newline] @ ''Alice,120,80'')
       = [[(Str ''name'', ''Alice''), (Str ''systolic'', ''120''), (Str ''diastolic'', ''80'')]]"
proof -
  have s: "normalizedHeader (cleanCell ''Systolic BP'') = Str ''systolic''"
    by code_simp
  have d: "normalizedHeader (cleanCell ''Diastolic BP'') = Str ''diastolic''"
    by code_simp
  have keys: "normalizedHeader (cleanCell c) \<in> fst ` set r"
    if "r \<in> set (parseCSV csvText)" and "csvLines csvText = headerLine # rows"
      and "c \<in> set (split_on comma headerLine)" for c
  proof -
    from parseCSV_member [OF that(1)] that(2) obtain row where
      "r = fst (forEach_header (normalizedHeadersOf headerLine) 0 (split_on comma row) ([], True))"
      by auto
    then have "fst ` set r = set (normalizedHeadersOf headerLine)"
      by (rule forEach_header_record(2) [OF normalizedHeadersOf_no_proto])
    with that(3) show ?thesis by (simp add: normalizedHeadersOf_def)
  qed
  have e: "parseCSV (''Name,Systolic BP,Diastolic BP'' @ [newline] @ ''Alice,120,80'')
       = [[(Str ''name'', ''Alice''), (Str ''systolic'', ''120''), (Str ''diastolic'', ''80'')]]"
    by code_simp
  from keys [of "''Systolic BP''"] keys [of "''Diastolic BP''"] s d e show ?thesis
    by metis
qed

theorem systolic_diastolic_keys_witness:
  "[(Str ''systolic'', ''120''), (Str ''diastolic'', ''80'')]
     \<in> set (parseCSV (''Systolic BP,Diastolic BP'' @ [newline] @ ''120,80''))
   \<and> csvLines (''Systolic BP,Diastolic BP'' @ [newline] @ ''120,80'') = [''Systolic BP,Diastolic BP'', ''120,80'']
   \<and> ''Systolic BP'' \<in> set (split_on comma ''Systolic BP,Diastolic BP'')
   \<and> ''Diastolic BP'' \<in> set (split_on comma ''Systolic BP,Diastolic BP'')
   \<and> Str ''systolic'' \<in> fst ` set [(Str ''systolic'', ''120''), (Str ''diastolic'', ''80'')]
   \<and> Str ''diastolic'' \<in> fst ` set [(Str ''systolic'', ''120''), (Str ''diastolic'', ''80'')]"
proof -
  have m: "[(Str ''systolic'', ''120''), (Str ''diastolic'', ''80'')]
     \<in> set (parseCSV (''Systolic BP,Diastolic BP'' @ [newline] @ ''120,80''))"
    by code_simp
  have l: "csvLines (''Systolic BP,Diastolic BP'' @ [newline] @ ''120,80'') = [''Systolic BP,Diastolic BP'', ''120,80'']"
    by code_simp
  have c: "''Systolic BP'' \<in> set (split_on comma ''Systolic BP,Diastolic BP'')"
    "''Diastolic BP'' \<in> set (split_on comma ''Systolic BP,Diastolic BP'')"
    by code_simp+
  from systolic_diastolic_keys
    [of "[(Str ''systolic'', ''120''), (Str ''diastolic'', ''80'')]"
        "''Systolic BP,Diastolic BP'' @ [newline] @ ''120,80''"
        "''Systolic BP,Diastolic BP''" "[''120,80'']"]
    m l c
  show ?thesis by blast
qed

section \<open>Properties of filterData\<close>

text \<open>
  C9. For every query and every sequence of records, filterData returns the records, in the
  order of the input, of which at least one field value in lower case contains the query in
  lower case as a substring.
\<close>

theorem filterData_subsequence:
  "filterData query data =
     filter (\<lambda>item. \<exists>v \<in> set (map snd item).
               \<exists>before after. toLowerCase v = before @ toLowerCase query @ after) data"
  by (simp add: filterData_def Let_def includes_str_sublist list_ex_iff sublist_def)

text \<open>
  C10. When every record has at least one field, filterData with the empty query returns the
  whole sequence unchanged.
\<close>

theorem filterData_empty_query:
  assumes "\<forall>item \<in> set data. item \<noteq> []"
  shows "filterData [] data = data"
proof -
  have "list_ex (\<lambda>v. includes_str (toLowerCase v) []) (map snd item)" if "item \<in> set data" for item
  proof -
    from assms that obtain p ps where "item = p # ps" by (cases item) auto
    then show ?thesis by (simp add: includes_str_Nil)
  qed
  then show ?thesis
    by (simp add: filterData_def toLowerCase_def filter_id_conv)
qed

theorem filterData_empty_query_witness:
  "filterData [] [[(Str ''name'', ''Alice'')], [(Str ''name'', []), (Str ''age'', ''30'')]]
     = [[(Str ''name'', ''Alice'')], [(Str ''name'', []), (Str ''age'', ''30'')]]"
  by (rule filterData_empty_query) simp

section \<open>Properties of fetchData and fetchAndLoadData\<close>

text \<open>
  C1, as the code has it. When the fetch for a dataset URL fails (it rejects, or the response
  is not OK), parseCSV is not called on that response: the call of fetchData logs the error
  and returns the empty sequence, and fetchAndLoadData stores that empty sequence, so the
  dataset of that URL becomes empty.
\<close>

theorem fetch_failure_empties_dataset:
  "(fetchFailed (fetch (cacheBusterUrl url now)) \<longrightarrow>
      fetchData fetch now url = ([], [ConsoleError]))
   \<and> (fetchFailed (fetch (cacheBusterUrl DOCTORS_DB_URL now1)) \<longrightarrow>
      doctorsData (fst (fetchAndLoadData fetch now1 now2 st)) = [])
   \<and> (fetchFailed (fetch (cacheBusterUrl PATIENT_DB_URL now2)) \<longrightarrow>
      databaseData (fst (fetchAndLoadData fetch now1 now2 st)) = [])"
proof -
  have f: "fetchData fetch t u = ([], [ConsoleError])" if "fetchFailed (fetch (cacheBusterUrl u t))" for t u
    using that by (auto simp: fetchData_def fetchFailed_def split: fetch_outcome.splits)
  show ?thesis
    by (auto simp: f fetchAndLoadData_def split: prod.splits)
qed

theorem fetch_failure_empties_dataset_witness:
  "fetchFailed ((\<lambda>url. Response False 404 None) (cacheBusterUrl DOCTORS_DB_URL 5))
   \<and> fetchData (\<lambda>url. Response False 404 None) 5 DOCTORS_DB_URL = ([], [ConsoleError])
   \<and> doctorsData (fst (fetchAndLoadData (\<lambda>url. Response False 404 None) 5 6
        \<lparr>doctorsData = [[(Str ''name'', ''Alice'')]], databaseData = []\<rparr>)) = []
   \<and> databaseData (fst (fetchAndLoadData (\<lambda>url. Response False 404 None) 5 6
        \<lparr>doctorsData = [[(Str ''name'', ''Alice'')]], databaseData = []\<rparr>)) = []"
proof -
  have h: "fetchFailed (Response False 404 None)"
    by (simp add: fetchFailed_def)
  from fetch_failure_empties_dataset
    [of "\<lambda>url. Response False 404 None" DOCTORS_DB_URL 5 5 6
        "\<lparr>doctorsData = [[(Str ''name'', ''Alice'')]], databaseData = []\<rparr>"] h
  show ?thesis by simp
qed

text \<open>
  C1, as the claim states it, fails: with a doctor dataset of one record loaded, a fetch that
  rejects leaves the doctor dataset empty, not as it was.
\<close>

theorem fetch_failure_counterexample:
  "fetchFailed ((\<lambda>url. Rejected) (cacheBusterUrl DOCTORS_DB_URL 5))
   \<and> doctorsData (fst (fetchAndLoadData (\<lambda>url. Rejected) 5 6
        \<lparr>doctorsData = [[(Str ''name'', ''Alice'')]], databaseData = []\<rparr>))
      \<noteq> doctorsData \<lparr>doctorsData = [[(Str ''name'', ''Alice'')]], databaseData = []\<rparr>"
  by (simp add: fetchFailed_def fetchAndLoadData_def fetchData_def)

end
